theory Spec2Isabelle
  imports Complex_Main "HOL-Library.AList" "HOL-Library.Sublist" "HOL-Library.Word"
begin

section \<open>Python strings and lists\<close>

text \<open>
  Strings are lists of 8-bit characters. \<open>str_split c s\<close> is \<^verbatim>\<open>s.split(c)\<close> for a
  one-character separator: it cuts at every occurrence and never returns the empty list.
\<close>

fun str_split :: "char \<Rightarrow> string \<Rightarrow> string list" where
  "str_split c [] = [[]]"
| "str_split c (x # xs) =
     (if x = c then [] # str_split c xs
      else (case str_split c xs of w # ws \<Rightarrow> (x # w) # ws | [] \<Rightarrow> [[x]]))"

text \<open>\<^verbatim>\<open>s.lower()\<close> on ASCII: the letters A to Z move to a to z.\<close>

definition lower_char :: "char \<Rightarrow> char" where
  "lower_char c =
     (let n = (of_char c :: nat) in if 65 \<le> n \<and> n \<le> 90 then char_of (n + 32) else c)"

definition lower :: "string \<Rightarrow> string" where
  "lower s = map lower_char s"

text \<open>\<^verbatim>\<open>s.rsplit(c, maxsplit=1)[0]\<close>: what stands before the last \<open>c\<close>, or all of \<open>s\<close>.\<close>

definition rsplit_first :: "char \<Rightarrow> string \<Rightarrow> string" where
  "rsplit_first c s =
     (if c \<in> set s then rev (tl (dropWhile (\<lambda>x. x \<noteq> c) (rev s))) else s)"

text \<open>\<^verbatim>\<open>s.strip(c)\<close>: leading and trailing occurrences of \<open>c\<close> removed.\<close>

definition strip :: "char \<Rightarrow> string \<Rightarrow> string" where
  "strip c s = rev (dropWhile (\<lambda>x. x = c) (rev (dropWhile (\<lambda>x. x = c) s)))"

text \<open>
  The idiom \<^verbatim>\<open>[xs.remove(L) for L in xs if xs.count(L) > 1]\<close> walks \<open>xs\<close> by position
  while removing from it: at position \<open>i\<close> it reads \<open>xs[i]\<close> from the list as it is then,
  and removes the first occurrence of that value when it occurs more than once.
\<close>

function remove_dups_loop :: "nat \<Rightarrow> 'a list \<Rightarrow> 'a list" where
  "remove_dups_loop i xs =
     (if i < length xs then
        (if count_list xs (xs ! i) > 1 then remove_dups_loop (Suc i) (remove1 (xs ! i) xs)
         else remove_dups_loop (Suc i) xs)
      else xs)"
  by pat_completeness auto
termination
  by (relation "measure (\<lambda>(i, xs). length xs - i)") (auto simp: length_remove1)

declare remove_dups_loop.simps [simp del]

section \<open>Errors, arguments and arrays\<close>

datatype error =
    InvalidElement string
  | BothElements
  | IndexError
  | KeyError string
  | TypeError
  | InvalidMode
  | MultipleModes
  | WrongLength string
  | LabelsNone
  | MissingAll string
  | ValueError
  | UnboundLocalError
  | InvalidIndices
  | BadBooleanLength
  | BothPoresAndThroats
  | InvalidTopology
  | UnknownTransport

text \<open>An argument that the source takes as \<^verbatim>\<open>None\<close>, one string or a list of strings.\<close>

datatype pyarg = PyNone | PyStr string | PyList "string list"

text \<open>
  Floating-point values are modelled by the extended reals they denote, with a
  not-a-number: finite values are exact reals (no rounding, no overflow, and zero has no
  sign), and the infinities and NaN follow the IEEE rules that numpy applies.
\<close>

datatype fl = Fin real | PInf | NInf | NaN

fun is_neg :: "fl \<Rightarrow> bool" where
  "is_neg (Fin a) = (a < 0)"
| "is_neg NInf = True"
| "is_neg x = False"


fun fadd :: "fl \<Rightarrow> fl \<Rightarrow> fl" where
  "fadd (Fin a) (Fin b) = Fin (a + b)"
| "fadd NaN y = NaN"
| "fadd x NaN = NaN"
| "fadd PInf NInf = NaN"
| "fadd NInf PInf = NaN"
| "fadd PInf y = PInf"
| "fadd x PInf = PInf"
| "fadd NInf y = NInf"
| "fadd x NInf = NInf"


fun fmul :: "fl \<Rightarrow> fl \<Rightarrow> fl" where
  "fmul (Fin a) (Fin b) = Fin (a * b)"
| "fmul NaN y = NaN"
| "fmul x NaN = NaN"
| "fmul x y = (if x = Fin 0 \<or> y = Fin 0 then NaN
               else if is_neg x = is_neg y then PInf else NInf)"



text \<open>
  \<^verbatim>\<open>astype(int)\<close> of a float: the fraction is cut off towards zero; a value that is
  not finite converts to the low bits that an x86 conversion leaves, which are zero.
\<close>

fun fl_to_int :: "fl \<Rightarrow> int" where
  "fl_to_int (Fin a) = (if 0 \<le> a then \<lfloor>a\<rfloor> else \<lceil>a\<rceil>)"
| "fl_to_int x = 0"

text \<open>
  Arrays are one-dimensional, of dtype bool, of an integer dtype (unbounded here) or of
  a floating-point dtype; object, string and multi-dimensional arrays are not modelled.
\<close>

datatype ndarray = BoolArr "bool list" | IntArr "int list" | FloatArr "fl list"

datatype pyvalue =
    PyBool bool | PyInt int | PyFloat fl
  | PyBools "bool list" | PyInts "int list" | PyFloats "fl list"

text \<open>\<^verbatim>\<open>sp.array(value, ndmin=1)\<close>: a scalar becomes an array of shape (1,).\<close>

fun sp_array :: "pyvalue \<Rightarrow> ndarray" where
  "sp_array (PyBool b) = BoolArr [b]"
| "sp_array (PyInt i) = IntArr [i]"
| "sp_array (PyFloat f) = FloatArr [f]"
| "sp_array (PyBools bs) = BoolArr bs"
| "sp_array (PyInts is) = IntArr is"
| "sp_array (PyFloats fs) = FloatArr fs"

fun size_nd :: "ndarray \<Rightarrow> nat" where
  "size_nd (BoolArr bs) = length bs"
| "size_nd (IntArr is) = length is"
| "size_nd (FloatArr fs) = length fs"

fun is_bool :: "ndarray \<Rightarrow> bool" where
  "is_bool (BoolArr bs) = True"
| "is_bool (IntArr is) = False"
| "is_bool (FloatArr fs) = False"

fun as_ints :: "ndarray \<Rightarrow> int list" where
  "as_ints (BoolArr bs) = map of_bool bs"
| "as_ints (IntArr is) = is"
| "as_ints (FloatArr fs) = map fl_to_int fs"

fun as_floats :: "ndarray \<Rightarrow> fl list" where
  "as_floats (BoolArr bs) = map (\<lambda>b. Fin (of_bool b)) bs"
| "as_floats (IntArr is) = map (\<lambda>i. Fin (of_int i)) is"
| "as_floats (FloatArr fs) = fs"

text \<open>
  Elementwise operations broadcast as numpy does for shapes (n,) and (m,): equal lengths
  pair up, a length of one is stretched, anything else raises. Two boolean operands
  give a boolean array, a floating-point operand gives a floating-point array, and the
  other pairs give an integer array.
\<close>

definition broadcast2 :: "('a \<Rightarrow> 'b \<Rightarrow> 'c) \<Rightarrow> 'a list \<Rightarrow> 'b list \<Rightarrow> error + 'c list" where
  "broadcast2 f xs ys =
     (if length xs = length ys then Inr (map2 f xs ys)
      else if length xs = 1 then Inr (map (f (hd xs)) ys)
      else if length ys = 1 then Inr (map (\<lambda>x. f x (hd ys)) xs)
      else Inl ValueError)"

fun np_add :: "ndarray \<Rightarrow> ndarray \<Rightarrow> error + ndarray" where
  "np_add (BoolArr a) (BoolArr b) = map_sum id BoolArr (broadcast2 (\<or>) a b)"
| "np_add (FloatArr a) y = map_sum id FloatArr (broadcast2 fadd a (as_floats y))"
| "np_add x (FloatArr b) = map_sum id FloatArr (broadcast2 fadd (as_floats x) b)"
| "np_add x y = map_sum id IntArr (broadcast2 (+) (as_ints x) (as_ints y))"

fun np_mul :: "ndarray \<Rightarrow> ndarray \<Rightarrow> error + ndarray" where
  "np_mul (BoolArr a) (BoolArr b) = map_sum id BoolArr (broadcast2 (\<and>) a b)"
| "np_mul (FloatArr a) y = map_sum id FloatArr (broadcast2 fmul a (as_floats y))"
| "np_mul x (FloatArr b) = map_sum id FloatArr (broadcast2 fmul (as_floats x) b)"
| "np_mul x y = map_sum id IntArr (broadcast2 (*) (as_ints x) (as_ints y))"

text \<open>\<^verbatim>\<open>sp.ones((n,), dtype=value.dtype)\<close>\<close>

fun ones_like_dtype :: "nat \<Rightarrow> ndarray \<Rightarrow> ndarray" where
  "ones_like_dtype n (BoolArr _) = BoolArr (replicate n True)"
| "ones_like_dtype n (IntArr _) = IntArr (replicate n 1)"
| "ones_like_dtype n (FloatArr _) = FloatArr (replicate n (Fin 1))"

section \<open>The store: class Base\<close>

text \<open>
  \<open>Base\<close> is a dict from keys to arrays; the association list keeps the dict's insertion
  order. \<open>models\<close> holds the keys of the \<^verbatim>\<open>models\<close> attribute that subclasses add;
  \<open>None\<close> when the object has no such attribute, as for \<open>Base\<close> itself.
\<close>

record base =
  data :: "(string \<times> ndarray) list"
  models :: "string list option"

definition keys :: "base \<Rightarrow> string list" where
  "keys s = map fst (data s)"

definition getitem :: "base \<Rightarrow> string \<Rightarrow> error + ndarray" where
  "getitem s key = (case map_of (data s) key of None \<Rightarrow> Inl (KeyError key) | Some a \<Rightarrow> Inr a)"

text \<open>The dict's own \<^verbatim>\<open>__setitem__\<close>, \<^verbatim>\<open>update\<close> and \<^verbatim>\<open>__delitem__\<close>.\<close>

definition dict_setitem :: "base \<Rightarrow> string \<Rightarrow> ndarray \<Rightarrow> base" where
  "dict_setitem s key a = s\<lparr>data := AList.update key a (data s)\<rparr>"

definition dict_delitem :: "base \<Rightarrow> string \<Rightarrow> base" where
  "dict_delitem s key = s\<lparr>data := AList.delete key (data s)\<rparr>"

definition init :: "nat \<Rightarrow> nat \<Rightarrow> base" where
  "init Np Nt =
     dict_setitem
       (dict_setitem \<lparr>data = [], models = None\<rparr> ''pore.all'' (BoolArr (replicate Np True)))
       ''throat.all'' (BoolArr (replicate Nt True))"

text \<open>\<open>_parse_element\<close> with \<open>single=False\<close>, then with \<open>single=True\<close>.\<close>

definition parse_element :: "pyarg \<Rightarrow> error + string list" where
  "parse_element element =
     (let element = (case element of PyNone \<Rightarrow> [''pore'', ''throat'']
                       | PyStr s \<Rightarrow> [s] | PyList l \<Rightarrow> l);
          element = map (\<lambda>item. hd (str_split CHR ''.'' item)) element;
          element = map lower element;
          element = map (rsplit_first CHR ''s'') element
      in case filter (\<lambda>item. item \<notin> set [''pore'', ''throat'']) element of
           item # _ \<Rightarrow> Inl (InvalidElement item)
         | [] \<Rightarrow> Inr (remove_dups_loop 0 element))"

definition parse_element_single :: "pyarg \<Rightarrow> error + string" where
  "parse_element_single element =
     (case parse_element element of
        Inl e \<Rightarrow> Inl e
      | Inr es \<Rightarrow>
          if length es > 1 then Inl BothElements
          else (case es of [] \<Rightarrow> Inl IndexError | e # _ \<Rightarrow> Inr e))"

text \<open>
  \<open>_count\<close> at its call sites in this class, where \<open>element\<close> is one string: the dict
  comprehension then has one entry and its value is returned.
\<close>

definition count :: "base \<Rightarrow> string \<Rightarrow> error + nat" where
  "count s element =
     (case parse_element (PyStr element) of
        Inl e \<Rightarrow> Inl e
      | Inr es \<Rightarrow>
          (case es of
             [e] \<Rightarrow> (case getitem s (e @ ''.all'') of Inl err \<Rightarrow> Inl err
                     | Inr a \<Rightarrow> Inr (size_nd a))
           | _ \<Rightarrow> Inl TypeError))"

text \<open>
  \<open>__setitem__\<close>. The logger calls do not touch the dict and are left out. Every raise
  comes before the first write, so an error leaves the store as it was.
\<close>

definition setitem :: "base \<Rightarrow> string \<Rightarrow> pyvalue \<Rightarrow> error + base" where
  "setitem s key v =
     (let value = sp_array v;
          parts = str_split CHR ''.'' key;
          element = hd parts
      in if element = ''constant'' then Inr (dict_setitem s key value)
         else (case parse_element_single (PyStr element) of
           Inl e \<Rightarrow> Inl e
         | Inr element \<Rightarrow>
             if key \<in> set [''pore.coords'', ''throat.conns''] then Inr (dict_setitem s key value)
             else if length parts < 2 then Inl IndexError
             else if parts ! 1 \<in> set [''all''] then
               (if key \<in> set (keys s) then
                  (case getitem s key of
                     Inl e \<Rightarrow> Inl e
                   | Inr a \<Rightarrow> if size_nd a = 0 then Inr (dict_setitem s key value) else Inr s)
                else Inr (dict_setitem s key value))
             else if size_nd value = 1 then
               (case count s element of
                  Inl e \<Rightarrow> Inl e
                | Inr n \<Rightarrow>
                    (case np_mul (ones_like_dtype n value) value of
                       Inl e \<Rightarrow> Inl e
                     | Inr a \<Rightarrow> Inr (dict_setitem s key a)))
             else (case count s element of
                  Inl e \<Rightarrow> Inl e
                | Inr n \<Rightarrow>
                    if size_nd value = n then Inr (dict_setitem s key value)
                    else if n = 0 then Inr (dict_setitem s key value)
                    else Inl (WrongLength key))))"

text \<open>\<open>_parse_mode\<close> with \<open>single=False\<close>, then with \<open>single=True\<close>.\<close>

definition parse_mode :: "pyarg \<Rightarrow> string list option \<Rightarrow> error + string list" where
  "parse_mode mode allowed =
     (case mode of
        PyNone \<Rightarrow> Inl TypeError
      | _ \<Rightarrow>
          (let mode = (case mode of PyStr m \<Rightarrow> [m] | PyList l \<Rightarrow> l | PyNone \<Rightarrow> [])
           in case allowed of
                None \<Rightarrow> Inr (remove_dups_loop 0 mode)
              | Some al \<Rightarrow>
                  if (\<exists>item \<in> set mode. item \<notin> set al) then Inl InvalidMode
                  else Inr (remove_dups_loop 0 mode)))"

definition parse_mode_single :: "pyarg \<Rightarrow> string list option \<Rightarrow> error + string" where
  "parse_mode_single mode allowed =
     (case parse_mode mode allowed of
        Inl e \<Rightarrow> Inl e
      | Inr ms \<Rightarrow>
          if length ms > 1 then Inl MultipleModes
          else (case ms of [] \<Rightarrow> Inl IndexError | m # _ \<Rightarrow> Inr m))"

text \<open>
  \<open>props\<close>. \<open>vals\<close> is a dict used as an ordered set of keys: \<open>keys_update\<close> is its
  \<^verbatim>\<open>update\<close>. Reading \<^verbatim>\<open>self[i].dtype\<close> raises for a key that the dict does not hold.
\<close>

definition keys_update :: "string list \<Rightarrow> string list \<Rightarrow> string list" where
  "keys_update vals new = fold (\<lambda>k acc. if k \<in> set acc then acc else acc @ [k]) new vals"

fun drop_labels :: "base \<Rightarrow> string list \<Rightarrow> error + string list" where
  "drop_labels s [] = Inr []"
| "drop_labels s (i # is) =
     (case getitem s i of
        Inl e \<Rightarrow> Inl e
      | Inr a \<Rightarrow>
          (case drop_labels s is of
             Inl e \<Rightarrow> Inl e
           | Inr r \<Rightarrow> Inr (if is_bool a then r else i # r)))"

definition props :: "base \<Rightarrow> pyarg \<Rightarrow> pyarg \<Rightarrow> error + string list" where
  "props s element mode =
     (let allowed_modes = [''all'', ''data'', ''models'', ''constants'']
      in case parse_mode mode (Some allowed_modes) of
           Inl e \<Rightarrow> Inl e
         | Inr mode \<Rightarrow>
             (let mode = (if ''all'' \<in> set mode then allowed_modes else mode)
              in case parse_element element of
                   Inl e \<Rightarrow> Inl e
                 | Inr element \<Rightarrow>
                     (let vals = (if ''data'' \<in> set mode then keys_update [] (keys s) else []);
                          vals = (case models s of
                                    None \<Rightarrow> vals
                                  | Some mk \<Rightarrow>
                                      (let vals = (if ''models'' \<in> set mode
                                                   then keys_update vals mk else vals)
                                       in if ''constants'' \<in> set mode
                                          then keys_update vals
                                                 (filter (\<lambda>i. i \<notin> set mk) (keys s))
                                          else vals));
                          vals = filter (\<lambda>i. hd (str_split CHR ''.'' i) \<in> set element) vals
                      in drop_labels s vals)))"

text \<open>\<open>clear\<close>: the loop deletes every listed key but the two \<open>all\<close> labels.\<close>

fun clear_loop :: "base \<Rightarrow> string list \<Rightarrow> error + base" where
  "clear_loop s [] = Inr s"
| "clear_loop s (item # items) =
     (if item \<notin> set [''pore.all'', ''throat.all''] then
        (if item \<in> set (keys s) then clear_loop (dict_delitem s item) items
         else Inl (KeyError item))
      else clear_loop s items)"

definition clear :: "base \<Rightarrow> pyarg \<Rightarrow> pyarg \<Rightarrow> error + base" where
  "clear s element mode =
     (case parse_mode mode (Some [''constants'', ''labels'', ''models'', ''all'']) of
        Inl e \<Rightarrow> Inl e
      | Inr mode \<Rightarrow>
          (case props s element (PyList mode) of
             Inl e \<Rightarrow> Inl e
           | Inr items \<Rightarrow> clear_loop s items))"

text \<open>
  A sequence of set and clear calls on one store. A call that raises leaves the store as
  it was and the sequence goes on with the next call.
\<close>

datatype op = Set string pyvalue | Clear pyarg pyarg

fun step :: "base \<Rightarrow> op \<Rightarrow> base" where
  "step s (Set key v) = (case setitem s key v of Inl e \<Rightarrow> s | Inr s' \<Rightarrow> s')"
| "step s (Clear element mode) = (case clear s element mode of Inl e \<Rightarrow> s | Inr s' \<Rightarrow> s')"

definition run :: "base \<Rightarrow> op list \<Rightarrow> base" where
  "run s ops = foldl step s ops"

text \<open>A sequence of set calls that all succeed; the first raise ends it.\<close>

fun set_all :: "base \<Rightarrow> (string \<times> pyvalue) list \<Rightarrow> error + base" where
  "set_all s [] = Inr s"
| "set_all s ((key, v) # kvs) =
     (case setitem s key v of Inl e \<Rightarrow> Inl e | Inr s' \<Rightarrow> set_all s' kvs)"

section \<open>Label queries\<close>

text \<open>
  \<open>labels\<close> when neither pores nor throats are given, which is how \<open>_parse_labels\<close> calls
  it: the keys of each element whose array is boolean. The source builds the list from
  a Python set, whose order is not fixed; here it is the dict's order.
\<close>

definition labels :: "base \<Rightarrow> pyarg \<Rightarrow> error + string list" where
  "labels s element =
     (case parse_element element of
        Inl e \<Rightarrow> Inl e
      | Inr es \<Rightarrow>
          Inr (concat (map (\<lambda>item.
                 remdups (filter (\<lambda>key. hd (str_split CHR ''.'' key) = item
                                   \<and> (case getitem s key of Inl _ \<Rightarrow> False
                                        | Inr a \<Rightarrow> is_bool a))
                            (keys s))) es)))"

text \<open>
  \<open>_parse_labels\<close>. The loop carries \<open>temp\<close>, which the wildcard branch assigns only when
  the pattern starts or ends with a star (so it can be unbound, or left over from the
  label before), the parsed labels, and the warnings logged so far.
\<close>

fun parse_labels_loop ::
  "base \<Rightarrow> string \<Rightarrow> string list \<Rightarrow> string list option \<Rightarrow> string list \<Rightarrow> string list
     \<Rightarrow> error + (string list \<times> string list)" where
  "parse_labels_loop s element [] temp parsed_labels logged = Inr (logged, parsed_labels)"
| "parse_labels_loop s element (label # rest) temp parsed_labels logged =
     (let label = (if sublist element label then last (str_split CHR ''.'' label) else label)
      in if CHR ''*'' \<in> set label then
           (case labels s (PyStr element) of
              Inl e \<Rightarrow> Inl e
            | Inr ls \<Rightarrow>
                (let Ls = map (\<lambda>L. last (str_split CHR ''.'' L)) ls;
                     temp = (if prefix ''*'' label
                             then Some (filter (\<lambda>L. suffix (strip CHR ''*'' label) L) Ls)
                             else temp);
                     temp = (if suffix ''*'' label
                             then Some (filter (\<lambda>L. prefix (strip CHR ''*'' label) L) Ls)
                             else temp)
                 in case temp of
                      None \<Rightarrow> Inl UnboundLocalError
                    | Some t \<Rightarrow>
                        (let t = map (\<lambda>L. element @ ''.'' @ L) t
                         in parse_labels_loop s element rest (Some t)
                              (remove_dups_loop 0 (parsed_labels @ t)) logged)))
         else if element @ ''.'' @ label \<in> set (keys s) then
           parse_labels_loop s element rest (Some [element @ ''.'' @ label])
             (remove_dups_loop 0 (parsed_labels @ [element @ ''.'' @ label])) logged
         else
           parse_labels_loop s element rest (Some [element @ ''.'' @ label])
             (remove_dups_loop 0 (parsed_labels @ [element @ ''.'' @ label]))
             (logged @ [[CHR 0x27] @ element @ ''.'' @ label @ [CHR 0x27] @ '' not found'']))"

definition parse_labels :: "base \<Rightarrow> pyarg \<Rightarrow> string \<Rightarrow> error + (string list \<times> string list)" where
  "parse_labels s labs element =
     (case labs of
        PyNone \<Rightarrow> Inl LabelsNone
      | PyStr l \<Rightarrow> parse_labels_loop s element [l] None [] []
      | PyList ls \<Rightarrow> parse_labels_loop s element ls None [] [])"

text \<open>\<^verbatim>\<open>sp.int8(info)\<close> keeps the low eight bits, read as a signed number.\<close>

definition int8 :: "ndarray \<Rightarrow> ndarray" where
  "int8 a = IntArr (map (\<lambda>x. sint (word_of_int x :: 8 word)) (as_ints a))"

text \<open>
  \<^verbatim>\<open>none - sp.int8(info)\<close>: both operands are integer arrays wherever \<open>_get_indices\<close>
  subtracts.
\<close>

definition np_sub_int :: "ndarray \<Rightarrow> ndarray \<Rightarrow> error + ndarray" where
  "np_sub_int x y = map_sum id IntArr (broadcast2 (-) (as_ints x) (as_ints y))"

text \<open>
  \<^verbatim>\<open>(acc == c)\<close> for an integer \<open>c\<close>. In \<open>_get_indices\<close> the left operand of the
  subtraction and of this comparison is always an integer array.
\<close>

fun eq_scalar :: "ndarray \<Rightarrow> int \<Rightarrow> ndarray" where
  "eq_scalar (BoolArr bs) c = BoolArr (map (\<lambda>b. of_bool b = c) bs)"
| "eq_scalar (IntArr is) c = BoolArr (map (\<lambda>x. x = c) is)"
| "eq_scalar (FloatArr fs) c = BoolArr (map (\<lambda>x. x = Fin (of_int c)) fs)"

text \<open>
  \<^verbatim>\<open>sp.where(ind)[0]\<close>: the positions of the entries that are true or not zero (a NaN
  counts as not zero).
\<close>

fun nonzero_at :: "ndarray \<Rightarrow> nat \<Rightarrow> bool" where
  "nonzero_at (BoolArr bs) i = bs ! i"
| "nonzero_at (IntArr is) i = (is ! i \<noteq> 0)"
| "nonzero_at (FloatArr fs) i = (fs ! i \<noteq> Fin 0)"

definition where_nonzero :: "ndarray \<Rightarrow> nat list" where
  "where_nonzero a = filter (nonzero_at a) [0 ..< size_nd a]"

text \<open>
  \<open>_get_indices\<close> returns the index array; the model pairs it with the warnings that
  \<open>_parse_labels\<close> logged on the way, so that what is logged can be stated.
  The four loops of \<open>_get_indices\<close> read \<^verbatim>\<open>self[element+'.'+item.split('.')[-1]]\<close> for
  each parsed label and fold it into the accumulator with \<open>f\<close>.
\<close>

fun collect ::
  "base \<Rightarrow> string \<Rightarrow> (ndarray \<Rightarrow> ndarray \<Rightarrow> error + ndarray) \<Rightarrow> string list \<Rightarrow> ndarray
     \<Rightarrow> error + ndarray" where
  "collect s element f [] acc = Inr acc"
| "collect s element f (item # items) acc =
     (case getitem s (element @ ''.'' @ last (str_split CHR ''.'' item)) of
        Inl e \<Rightarrow> Inl e
      | Inr info \<Rightarrow>
          (case f acc info of
             Inl e \<Rightarrow> Inl e
           | Inr acc' \<Rightarrow> collect s element f items acc'))"

definition get_indices :: "base \<Rightarrow> string \<Rightarrow> pyarg \<Rightarrow> pyarg \<Rightarrow> error + (string list \<times> nat list)" where
  "get_indices s element labs mode =
     (let allowed = [''union'', ''intersection'', ''not_intersection'', ''not'', ''difference'']
      in case parse_mode_single mode (Some allowed) of
           Inl e \<Rightarrow> Inl e
         | Inr mode \<Rightarrow>
        (case parse_element_single (PyStr element) of
           Inl e \<Rightarrow> Inl e
         | Inr element \<Rightarrow>
        (case parse_labels s labs element of
           Inl e \<Rightarrow> Inl e
         | Inr (logged, labs) \<Rightarrow>
        (case (if element @ ''.all'' \<in> set (keys s) then getitem s (element @ ''.all'')
               else Inl (MissingAll element)) of
           Inl e \<Rightarrow> Inl e
         | Inr all \<Rightarrow>
        (let N = size_nd all;
             ind =
               (if mode \<in> set [''union''] then
                  collect s element np_add labs (BoolArr (replicate N False))
                else if mode \<in> set [''intersection''] then
                  collect s element np_mul labs (BoolArr (replicate N True))
                else if mode \<in> set [''not_intersection''] then
                  map_sum id (\<lambda>a. eq_scalar a 1)
                    (collect s element (\<lambda>acc info. np_add acc (int8 info)) labs
                       (IntArr (replicate N 0)))
                else
                  map_sum id (\<lambda>a. eq_scalar a 0)
                    (collect s element (\<lambda>acc info. np_sub_int acc (int8 info)) labs
                       (IntArr (replicate N 0))))
         in case ind of
              Inl e \<Rightarrow> Inl e
            | Inr ind \<Rightarrow> Inr (logged, where_nonzero ind))))))"

definition pores :: "base \<Rightarrow> pyarg \<Rightarrow> pyarg \<Rightarrow> error + (string list \<times> nat list)" where
  "pores s labs mode = get_indices s ''pore'' labs mode"

definition throats :: "base \<Rightarrow> pyarg \<Rightarrow> pyarg \<Rightarrow> error + (string list \<times> nat list)" where
  "throats s labs mode = get_indices s ''throat'' labs mode"

section \<open>Masks and indices\<close>

text \<open>
  The properties \<open>Np\<close> and \<open>Nt\<close> read \<^verbatim>\<open>sp.shape(self.get(key))[0]\<close>: with the key
  missing, \<^verbatim>\<open>get\<close> gives \<^verbatim>\<open>None\<close>, whose shape is empty, and the subscript raises.
\<close>

definition Np :: "base \<Rightarrow> error + nat" where
  "Np s = (case map_of (data s) ''pore.all'' of None \<Rightarrow> Inl IndexError
           | Some a \<Rightarrow> Inr (size_nd a))"

definition Nt :: "base \<Rightarrow> error + nat" where
  "Nt s = (case map_of (data s) ''throat.all'' of None \<Rightarrow> Inl IndexError
           | Some a \<Rightarrow> Inr (size_nd a))"

text \<open>
  What \<open>_parse_indices\<close> can be handed: nothing, booleans, integers, or data of a dtype
  that is neither numeric nor boolean.
\<close>

datatype pyindices = IdxNone | IdxBools "bool list" | IdxInts "int list" | IdxOther

text \<open>\<^verbatim>\<open>sp.arange(0, n)[locs]\<close> for a boolean \<open>locs\<close> of length \<open>n\<close>.\<close>

definition arange_mask :: "bool list \<Rightarrow> int list" where
  "arange_mask locs = map int (filter (\<lambda>i. locs ! i) [0 ..< length locs])"

definition parse_indices :: "base \<Rightarrow> pyindices \<Rightarrow> error + int list" where
  "parse_indices s indices =
     (case indices of
        IdxOther \<Rightarrow> Inl InvalidIndices
      | IdxNone \<Rightarrow> Inr []
      | IdxInts locs \<Rightarrow> Inr locs
      | IdxBools locs \<Rightarrow>
          (case Np s of
             Inl e \<Rightarrow> Inl e
           | Inr np \<Rightarrow>
               if length locs = np then Inr (arange_mask locs)
               else (case Nt s of
                       Inl e \<Rightarrow> Inl e
                     | Inr nt \<Rightarrow>
                         if length locs = nt then Inr (arange_mask locs)
                         else Inl BadBooleanLength)))"

text \<open>
  \<^verbatim>\<open>mask[ind] = True\<close>: an index from \<open>-N\<close> up to \<open>N - 1\<close> is accepted, a negative one
  counting from the end; any other raises before anything is written.
\<close>

definition mask_assign :: "bool list \<Rightarrow> int list \<Rightarrow> error + bool list" where
  "mask_assign msk ind =
     (let N = int (length msk)
      in if (\<forall>i \<in> set ind. - N \<le> i \<and> i < N)
         then Inr (fold (\<lambda>i m. m[nat (if i < 0 then i + N else i) := True]) ind msk)
         else Inl IndexError)"

definition tomask_element :: "base \<Rightarrow> pyindices \<Rightarrow> string \<Rightarrow> error + bool list" where
  "tomask_element s indices element =
     (case parse_element_single (PyStr element) of
        Inl e \<Rightarrow> Inl e
      | Inr element \<Rightarrow>
          (case parse_indices s indices of
             Inl e \<Rightarrow> Inl e
           | Inr ind \<Rightarrow>
               (case getitem s (element @ ''.all'') of
                  Inl e \<Rightarrow> Inl e
                | Inr all \<Rightarrow> mask_assign (replicate (size_nd all) False) ind)))"

definition tomask :: "base \<Rightarrow> pyindices option \<Rightarrow> pyindices option \<Rightarrow> error + bool list" where
  "tomask s ps ts =
     (case (ps, ts) of
        (Some p, None) \<Rightarrow> tomask_element s p ''pore''
      | (None, Some t) \<Rightarrow> tomask_element s t ''throat''
      | _ \<Rightarrow> Inl BothPoresAndThroats)"

definition toindices :: "base \<Rightarrow> pyindices \<Rightarrow> error + int list" where
  "toindices s msk = parse_indices s msk"

section \<open>Conductance assembler\<close>

text \<open>
  Modelled from the spec: the conductance assembler of section 4.2. The class that builds
  the matrix (\<open>GenericTransport\<close>) is imported by \<open>algorithms/__init__.py\<close> but is not
  among the source files. Each edge \<open>(i, j)\<close> with conductance \<open>g\<close> adds \<open>g\<close> to
  \<open>A[i,i]\<close> and \<open>A[j,j]\<close> and subtracts it from \<open>A[i,j]\<close> and \<open>A[j,i]\<close>; a self-loop
  or a node index outside \<open>[0, N)\<close> fails with \<open>InvalidTopology\<close>. Entries are exact
  reals, so an edge with \<open>g = 0\<close> contributes zero by the same additions.
\<close>

type_synonym matrix = "real list list"

definition add_at :: "matrix \<Rightarrow> nat \<Rightarrow> nat \<Rightarrow> real \<Rightarrow> matrix" where
  "add_at A i j g = A[i := (A ! i)[j := A ! i ! j + g]]"

definition add_edge :: "matrix \<Rightarrow> nat \<times> nat \<times> real \<Rightarrow> matrix" where
  "add_edge A e =
     (case e of (i, j, g) \<Rightarrow>
        add_at (add_at (add_at (add_at A i i g) j j g) i j (- g)) j i (- g))"

definition assemble :: "nat \<Rightarrow> (nat \<times> nat \<times> real) list \<Rightarrow> error + matrix" where
  "assemble N edges =
     (if list_ex (\<lambda>(i, j, g). i = j \<or> N \<le> i \<or> N \<le> j) edges then Inl InvalidTopology
      else Inr (foldl add_edge (replicate N (replicate N 0)) edges))"

section \<open>The generic conductance model\<close>

text \<open>
  \<open>generic_conductance\<close> from its line 87 on, for one conduit: numpy applies every
  operation elementwise, so each conduit of the arrays is computed as here. The areas,
  lengths, diffusivities and shape factors are taken as already read from the network
  and the phase (the objects that hold them are not among the source files); a shape
  factor that the phase lacks is the scalar 1.0.
\<close>

record conduit =
  A1 :: fl
  At :: fl
  A2 :: fl
  L1 :: fl
  Lt :: fl
  L2 :: fl
  D1 :: fl
  Dt :: fl
  D2 :: fl
  SF1 :: fl
  SFt :: fl
  SF2 :: fl













text \<open>
  A conductance matrix over \<open>N\<close> nodes: square, symmetric, every row summing to zero.
\<close>

definition laplacian :: "nat \<Rightarrow> matrix \<Rightarrow> bool" where
  "laplacian N A \<longleftrightarrow> length A = N \<and> (\<forall>i < N. length (A ! i) = N)
     \<and> (\<forall>i < N. \<forall>j < N. A ! i ! j = A ! j ! i) \<and> (\<forall>i < N. sum_list (A ! i) = 0)"

section \<open>The shape invariant of the store\<close>



section \<open>Basic facts\<close>

lemma str_split_nonempty: "str_split c s \<noteq> []"
  by (induction s) (auto split: list.splits)

lemma remove_dups_loop_single: "remove_dups_loop 0 [x] = [x]"
  by (simp add: remove_dups_loop.simps)

lemma pe_pore: "parse_element (PyStr ''pore'') = Inr [''pore'']"
  by (simp add: parse_element_def lower_def lower_char_def rsplit_first_def remove_dups_loop_single)

lemma pe_throat: "parse_element (PyStr ''throat'') = Inr [''throat'']"
  by (simp add: parse_element_def lower_def lower_char_def rsplit_first_def remove_dups_loop_single)


lemma count_pore: "count s ''pore'' = map_sum id size_nd (getitem s ''pore.all'')"
  by (simp add: count_def pe_pore split: sum.splits)

lemma count_throat: "count s ''throat'' = map_sum id size_nd (getitem s ''throat.all'')"
  by (simp add: count_def pe_throat split: sum.splits)

lemma getitem_dict_setitem:
  "getitem (dict_setitem s k a) k' = (if k' = k then Inr a else getitem s k')"
  by (simp add: getitem_def dict_setitem_def update_conv')

lemma getitem_dict_delitem:
  "getitem (dict_delitem s k) k' = (if k' = k then Inl (KeyError k') else getitem s k')"
  by (simp add: getitem_def dict_delitem_def delete_conv')

lemma keys_getitem: "k \<in> set (keys s) \<longleftrightarrow> (\<exists>a. getitem s k = Inr a)"
proof -
  have "k \<in> set (keys s) \<longleftrightarrow> map_of (data s) k \<noteq> None"
    by (simp add: keys_def map_of_eq_None_iff)
  then show ?thesis
    by (auto simp: getitem_def split: option.splits)
qed

lemma models_dict_setitem: "models (dict_setitem s k a) = models s"
  by (simp add: dict_setitem_def)

lemma setitem_result:
  "setitem s key v = Inr s' \<Longrightarrow> s' = s \<or> (\<exists>a. s' = dict_setitem s key a)"
  by (auto simp: setitem_def Let_def split: if_splits sum.splits)

lemma setitem_all_kept:
  assumes "getitem s key = Inr a" and "size_nd a \<noteq> 0"
    and "key = ''pore.all'' \<or> key = ''throat.all''"
  shows "setitem s key v = Inr s"
proof -
  have k: "key \<in> set (keys s)" using assms(1) by (simp add: keys_getitem)
  from assms(3) show ?thesis
  proof
    assume "key = ''pore.all''"
    with assms k show ?thesis
      by (simp add: setitem_def parse_element_single_def pe_pore)
  next
    assume "key = ''throat.all''"
    with assms k show ?thesis
      by (simp add: setitem_def parse_element_single_def pe_throat)
  qed
qed

lemma setitem_keeps_all:
  assumes "getitem s k = Inr a" and "size_nd a \<noteq> 0"
    and "k = ''pore.all'' \<or> k = ''throat.all''"
    and "setitem s key v = Inr s'"
  shows "getitem s' k = Inr a"
proof (cases "key = k")
  case True
  with assms setitem_all_kept [of s k a v] show ?thesis by simp
next
  case False
  with setitem_result [OF assms(4)] assms(1) show ?thesis
    by (auto simp: getitem_dict_setitem)
qed

lemma clear_loop_keeps:
  "clear_loop s items = Inr s' \<Longrightarrow> k = ''pore.all'' \<or> k = ''throat.all'' \<Longrightarrow>
   getitem s' k = getitem s k"
proof (induction items arbitrary: s)
  case Nil
  then show ?case by simp
next
  case (Cons item items)
  then show ?case
    by (auto simp: getitem_dict_delitem split: if_splits)
qed

lemma clear_keeps_all:
  "clear s element mode = Inr s' \<Longrightarrow> k = ''pore.all'' \<or> k = ''throat.all'' \<Longrightarrow>
   getitem s' k = getitem s k"
  by (auto simp: clear_def split: sum.splits dest: clear_loop_keeps)

lemma step_keeps_all:
  assumes "getitem s k = Inr a" and "size_nd a \<noteq> 0"
    and "k = ''pore.all'' \<or> k = ''throat.all''"
  shows "getitem (step s x) k = Inr a"
proof (cases x)
  case (Set key v)
  with assms show ?thesis
    by (auto split: sum.splits dest: setitem_keeps_all)
next
  case (Clear element mode)
  with assms show ?thesis
    by (auto split: sum.splits dest: clear_keeps_all)
qed

lemma run_keeps_all:
  "getitem s k = Inr a \<Longrightarrow> size_nd a \<noteq> 0 \<Longrightarrow> k = ''pore.all'' \<or> k = ''throat.all'' \<Longrightarrow>
   getitem (run s ops) k = Inr a"
  unfolding run_def
  by (induction ops arbitrary: s) (auto dest: step_keeps_all)

lemma getitem_init:
  "getitem ((init np nt)\<lparr>models := m\<rparr>) ''pore.all'' = Inr (BoolArr (replicate np True))"
  "getitem ((init np nt)\<lparr>models := m\<rparr>) ''throat.all'' = Inr (BoolArr (replicate nt True))"
  by (simp_all add: init_def getitem_def dict_setitem_def)


lemma broadcast_scalar_bool:
  "broadcast2 (\<and>) (replicate n True) [b] = Inr (replicate n b)"
  by (cases n) (auto simp: broadcast2_def map_replicate_const)

lemma broadcast_scalar_int:
  "broadcast2 (*) (replicate n (1::int)) [i] = Inr (replicate n i)"
  by (cases n) (auto simp: broadcast2_def)

lemma fmul_one_left: "fmul (Fin 1) f = f"
  by (cases f) simp_all

lemma broadcast_scalar_float:
  "broadcast2 fmul (replicate n (Fin 1)) [f] = Inr (replicate n f)"
  by (cases n) (auto simp: broadcast2_def fmul_one_left)


lemma constant_not_element:
  "parse_element_single (PyStr ''constant'') = Inl (InvalidElement ''con'')"
  by (simp add: parse_element_single_def parse_element_def lower_def lower_char_def
      rsplit_first_def)

lemma setitem_checked:
  assumes el: "parse_element_single (PyStr (hd (str_split CHR ''.'' key))) = Inr element"
    and plain: "key \<notin> {''pore.coords'', ''throat.conns''}"
    and parts: "2 \<le> length (str_split CHR ''.'' key)" "str_split CHR ''.'' key ! 1 \<noteq> ''all''"
  shows "setitem s key v =
     (if size_nd (sp_array v) = 1 then
        (case count s element of Inl e \<Rightarrow> Inl e
         | Inr n \<Rightarrow> (case np_mul (ones_like_dtype n (sp_array v)) (sp_array v) of
                       Inl e \<Rightarrow> Inl e | Inr a \<Rightarrow> Inr (dict_setitem s key a)))
      else (case count s element of Inl e \<Rightarrow> Inl e
         | Inr n \<Rightarrow> if size_nd (sp_array v) = n \<or> n = 0
                     then Inr (dict_setitem s key (sp_array v)) else Inl (WrongLength key)))"
proof -
  have "hd (str_split CHR ''.'' key) \<noteq> ''constant''"
    using el constant_not_element by auto
  with assms show ?thesis
    by (auto simp: setitem_def Let_def split: sum.splits)
qed

lemma getitem_init_plain:
  "getitem (init np nt) ''pore.all'' = Inr (BoolArr (replicate np True))"
  "getitem (init np nt) ''throat.all'' = Inr (BoolArr (replicate nt True))"
  by (simp_all add: init_def getitem_def dict_setitem_def)

section \<open>The \<open>all\<close> labels\<close>

text \<open>
  Claim C5. A store created with \<open>Np > 0\<close> pores and \<open>Nt > 0\<close> throats has the labels
  \<open>pore.all\<close> and \<open>throat.all\<close> from creation, and after any sequence of set and clear
  calls (whether each call succeeds or raises, and whatever \<open>models\<close> attribute a
  subclass adds) they are still the all-true arrays of lengths \<open>Np\<close> and \<open>Nt\<close> that
  define the element counts: a write to either key returns with the store as it was,
  and no clear deletes them.
\<close>

theorem all_labels_persist:
  assumes "0 < np" and "0 < nt" and "S = run ((init np nt)\<lparr>models := m\<rparr>) ops"
  shows "getitem S ''pore.all'' = Inr (BoolArr (replicate np True))
       \<and> getitem S ''throat.all'' = Inr (BoolArr (replicate nt True))
       \<and> count S ''pore'' = Inr np \<and> count S ''throat'' = Inr nt
       \<and> setitem S ''pore.all'' v = Inr S \<and> setitem S ''throat.all'' v = Inr S
       \<and> getitem (step S (Clear element mode)) ''pore.all'' = Inr (BoolArr (replicate np True))
       \<and> getitem (step S (Clear element mode)) ''throat.all'' = Inr (BoolArr (replicate nt True))"
proof -
  have p: "getitem S ''pore.all'' = Inr (BoolArr (replicate np True))"
    unfolding assms(3) by (rule run_keeps_all [OF getitem_init(1)]) (use assms(1) in simp_all)
  have t: "getitem S ''throat.all'' = Inr (BoolArr (replicate nt True))"
    unfolding assms(3) by (rule run_keeps_all [OF getitem_init(2)]) (use assms(2) in simp_all)
  have "setitem S ''pore.all'' v = Inr S"
    by (rule setitem_all_kept [OF p]) (use assms(1) in simp_all)
  moreover have "setitem S ''throat.all'' v = Inr S"
    by (rule setitem_all_kept [OF t]) (use assms(2) in simp_all)
  moreover have "getitem (step S (Clear element mode)) ''pore.all''
      = Inr (BoolArr (replicate np True))"
    by (rule step_keeps_all [OF p]) (use assms(1) in simp_all)
  moreover have "getitem (step S (Clear element mode)) ''throat.all''
      = Inr (BoolArr (replicate nt True))"
    by (rule step_keeps_all [OF t]) (use assms(2) in simp_all)
  ultimately show ?thesis
    using p t by (simp add: count_pore count_throat)
qed

theorem all_labels_persist_witness:
  "0 < (2::nat) \<and> 0 < (1::nat)
   \<and> getitem (run ((init 2 1)\<lparr>models := None\<rparr>)
        [Set ''pore.all'' (PyInts []), Clear PyNone (PyStr ''all''), Set ''pore.x'' (PyInt 5)])
        ''pore.all'' = Inr (BoolArr [True, True])
   \<and> getitem (run ((init 2 1)\<lparr>models := None\<rparr>)
        [Set ''pore.all'' (PyInts []), Clear PyNone (PyStr ''all''), Set ''pore.x'' (PyInt 5)])
        ''throat.all'' = Inr (BoolArr [True])"
  using all_labels_persist [of 2 1 _ None
      "[Set ''pore.all'' (PyInts []), Clear PyNone (PyStr ''all''), Set ''pore.x'' (PyInt 5)]"]
  by (simp add: numeral_2_eq_2)

section \<open>Length check and broadcast on assignment\<close>

text \<open>
  Claim C3, as the code has it. Take a key with at least two dot-separated parts whose
  first part names an element type, whose second part is not \<open>all\<close>, and which is neither
  \<open>pore.coords\<close> nor \<open>throat.conns\<close>. Assigning to it an array of length greater than one
  that differs from the current count \<open>n\<close> of that element raises at the assignment and
  leaves the store as it was, except when \<open>n = 0\<close>, in which case the array is stored as
  given.
\<close>

theorem setitem_wrong_length:
  assumes el: "parse_element_single (PyStr (hd (str_split CHR ''.'' key))) = Inr element"
    and cnt: "count s element = Inr n"
    and nonscalar: "1 < size_nd (sp_array v)"
    and differs: "size_nd (sp_array v) \<noteq> n"
    and plain: "key \<notin> {''pore.coords'', ''throat.conns''}"
    and parts: "2 \<le> length (str_split CHR ''.'' key)" "str_split CHR ''.'' key ! 1 \<noteq> ''all''"
  shows "setitem s key v =
           (if n = 0 then Inr (dict_setitem s key (sp_array v)) else Inl (WrongLength key))
       \<and> step s (Set key v) = (if n = 0 then dict_setitem s key (sp_array v) else s)"
  using cnt nonscalar differs
  by (simp add: setitem_checked [OF el plain parts])

theorem setitem_wrong_length_witness:
  "setitem (init 3 2) ''pore.x'' (PyInts [1, 2]) = Inl (WrongLength ''pore.x'')
   \<and> step (init 3 2) (Set ''pore.x'' (PyInts [1, 2])) = init 3 2"
  using setitem_wrong_length [of "''pore.x''" "''pore''" "init 3 2" 3 "PyInts [1, 2]"]
  by (simp add: parse_element_single_def pe_pore count_pore getitem_init_plain)

text \<open>
  The claim as stated fails on the keys that the code exempts from the check:
  with three pores, a two-entry array is stored under \<open>pore.coords\<close>, and the same
  assignment to \<open>pore.all\<close> returns without an error and without a write.
\<close>

theorem setitem_wrong_length_counterexample:
  "count (init 3 2) ''pore'' = Inr 3
   \<and> size_nd (sp_array (PyInts [1, 2])) = 2
   \<and> setitem (init 3 2) ''pore.coords'' (PyInts [1, 2]) =
       Inr \<lparr>data = [(''pore.all'', BoolArr [True, True, True]),
                     (''throat.all'', BoolArr [True, True]),
                     (''pore.coords'', IntArr [1, 2])], models = None\<rparr>
   \<and> setitem (init 3 2) ''pore.all'' (PyInts [1, 2]) = Inr (init 3 2)"
  by (simp add: count_pore setitem_def parse_element_single_def pe_pore init_def
      dict_setitem_def getitem_def keys_def numeral_3_eq_3 numeral_2_eq_2)

text \<open>
  Claim C4, as the code has it. For a key as in C3 (two or more parts, the first naming
  an element type, the second not \<open>all\<close>, and neither \<open>pore.coords\<close> nor
  \<open>throat.conns\<close>) on a store whose count of that element is \<open>n\<close>, assigning a
  scalar, be it a float, an integer or a boolean, succeeds, and the get of that key
  then returns the array of length \<open>n\<close> whose every entry is that scalar.
\<close>

theorem setitem_scalar_broadcast:
  assumes el: "parse_element_single (PyStr (hd (str_split CHR ''.'' key))) = Inr element"
    and cnt: "count s element = Inr n"
    and plain: "key \<notin> {''pore.coords'', ''throat.conns''}"
    and parts: "2 \<le> length (str_split CHR ''.'' key)" "str_split CHR ''.'' key ! 1 \<noteq> ''all''"
  shows "setitem s key (PyFloat f) = Inr (dict_setitem s key (FloatArr (replicate n f)))
       \<and> getitem (dict_setitem s key (FloatArr (replicate n f))) key
           = Inr (FloatArr (replicate n f))
       \<and> setitem s key (PyInt i) = Inr (dict_setitem s key (IntArr (replicate n i)))
       \<and> getitem (dict_setitem s key (IntArr (replicate n i))) key = Inr (IntArr (replicate n i))
       \<and> setitem s key (PyBool b) = Inr (dict_setitem s key (BoolArr (replicate n b)))
       \<and> getitem (dict_setitem s key (BoolArr (replicate n b))) key = Inr (BoolArr (replicate n b))"
  using cnt
  by (simp add: setitem_checked [OF el plain parts] broadcast_scalar_int
      broadcast_scalar_bool broadcast_scalar_float getitem_dict_setitem)

theorem setitem_scalar_broadcast_witness:
  "setitem (init 3 2) ''throat.x'' (PyFloat (Fin (1 / 10))) =
     Inr (dict_setitem (init 3 2) ''throat.x'' (FloatArr [Fin (1 / 10), Fin (1 / 10)]))
   \<and> getitem (dict_setitem (init 3 2) ''throat.x'' (FloatArr [Fin (1 / 10), Fin (1 / 10)]))
        ''throat.x'' = Inr (FloatArr [Fin (1 / 10), Fin (1 / 10)])
   \<and> setitem (init 3 2) ''throat.x'' (PyInt 7) =
     Inr (dict_setitem (init 3 2) ''throat.x'' (IntArr [7, 7]))"
  using setitem_scalar_broadcast [of "''throat.x''" "''throat''" "init 3 2" 2 "Fin (1 / 10)" 7 True]
  by (simp add: parse_element_single_def pe_throat count_throat
      getitem_init_plain numeral_2_eq_2)

text \<open>
  The claim as stated fails on \<open>pore.coords\<close> (and likewise \<open>throat.conns\<close>), which is
  written before the broadcast: with three pores, the scalar 7 is stored as the
  one-entry array, and so is the float 0.5.
\<close>

theorem setitem_scalar_broadcast_counterexample:
  "count (init 3 2) ''pore'' = Inr 3
   \<and> setitem (init 3 2) ''pore.coords'' (PyInt 7) =
       Inr (dict_setitem (init 3 2) ''pore.coords'' (IntArr [7]))
   \<and> getitem (dict_setitem (init 3 2) ''pore.coords'' (IntArr [7])) ''pore.coords''
       = Inr (IntArr [7])
   \<and> setitem (init 3 2) ''pore.coords'' (PyFloat (Fin (1 / 2))) =
       Inr (dict_setitem (init 3 2) ''pore.coords'' (FloatArr [Fin (1 / 2)]))"
  by (simp add: count_pore setitem_def parse_element_single_def pe_pore 
      getitem_dict_setitem getitem_init_plain)

section \<open>Namespacing and lengths of stored arrays\<close>

lemma parse_single_pore: "parse_element_single (PyStr ''pore'') = Inr ''pore''"
  by (simp add: parse_element_single_def pe_pore)

lemma parse_single_throat: "parse_element_single (PyStr ''throat'') = Inr ''throat''"
  by (simp add: parse_element_single_def pe_throat)











section \<open>Masks and indices: the round trip\<close>

lemma mask_fold:
  assumes "\<forall>i \<in> set I. 0 \<le> i \<and> i < int n" and "length m0 = n"
  shows "fold (\<lambda>i m. m[nat (if i < 0 then i + int n else i) := True]) I m0
       = map (\<lambda>j. m0 ! j \<or> int j \<in> set I) [0 ..< n]"
  using assms
proof (induction I arbitrary: m0 rule: rev_induct)
  case Nil
  then show ?case by (auto simp: map_nth)
next
  case (snoc i I)
  then have IH: "fold (\<lambda>i m. m[nat (if i < 0 then i + int n else i) := True]) I m0
       = map (\<lambda>j. m0 ! j \<or> int j \<in> set I) [0 ..< n]"
    by simp
  from snoc.prems have i: "0 \<le> i" "nat i < n" by auto
  have "(map (\<lambda>j. m0 ! j \<or> int j \<in> set I) [0 ..< n])[nat i := True]
      = map (\<lambda>j. m0 ! j \<or> int j \<in> set (I @ [i])) [0 ..< n]"
  proof (rule nth_equalityI)
    show "length ((map (\<lambda>j. m0 ! j \<or> int j \<in> set I) [0 ..< n])[nat i := True])
        = length (map (\<lambda>j. m0 ! j \<or> int j \<in> set (I @ [i])) [0 ..< n])"
      by simp
  next
    fix k
    assume "k < length ((map (\<lambda>j. m0 ! j \<or> int j \<in> set I) [0 ..< n])[nat i := True])"
    then have k: "k < n" by simp
    have "int k = i \<longleftrightarrow> nat i = k" using i by auto
    with k show "(map (\<lambda>j. m0 ! j \<or> int j \<in> set I) [0 ..< n])[nat i := True] ! k
        = map (\<lambda>j. m0 ! j \<or> int j \<in> set (I @ [i])) [0 ..< n] ! k"
      by (auto simp: nth_list_update)
  qed
  with i show ?case by (simp add: IH)
qed

lemma mask_assign_replicate:
  assumes "\<forall>i \<in> set I. 0 \<le> i \<and> i < int n"
  shows "mask_assign (replicate n False) I = Inr (map (\<lambda>j. int j \<in> set I) [0 ..< n])"
proof -
  have "map (\<lambda>j. replicate n False ! j \<or> int j \<in> set I) [0 ..< n]
      = map (\<lambda>j. int j \<in> set I) [0 ..< n]"
    by (rule map_cong) simp_all
  with mask_fold [OF assms, of "replicate n False"]
  have "fold (\<lambda>i m. m[nat (if i < 0 then i + int n else i) := True]) I (replicate n False)
      = map (\<lambda>j. int j \<in> set I) [0 ..< n]"
    by simp
  moreover have "\<forall>i \<in> set I. - int n \<le> i \<and> i < int n"
    using assms by auto
  ultimately show ?thesis
    by (simp add: mask_assign_def Let_def)
qed

lemma arange_mask_set:
  assumes "sorted_wrt (<) I" and "\<forall>i \<in> set I. 0 \<le> i \<and> i < int n"
  shows "arange_mask (map (\<lambda>j. int j \<in> set I) [0 ..< n]) = I"
proof -
  let ?L = "map int (filter (\<lambda>j. int j \<in> set I) [0 ..< n])"
  have eq: "arange_mask (map (\<lambda>j. int j \<in> set I) [0 ..< n]) = ?L"
    unfolding arange_mask_def by (auto intro!: arg_cong [where f = "map int"] filter_cong)
  have "sorted (map int [0 ..< n])"
    by (simp add: sorted_map)
  then have "sorted ?L" by (rule sorted_filter)
  moreover have "distinct ?L" by (simp add: distinct_map inj_on_def)
  moreover have "set ?L = set I"
  proof
    show "set ?L \<subseteq> set I" by auto
    show "set I \<subseteq> set ?L"
    proof
      fix i assume "i \<in> set I"
      with assms(2) have "0 \<le> i" "nat i < n" by auto
      with \<open>i \<in> set I\<close> have "nat i \<in> set (filter (\<lambda>j. int j \<in> set I) [0 ..< n])" by simp
      then have "int (nat i) \<in> set ?L" by (metis image_eqI set_map)
      with \<open>0 \<le> i\<close> show "i \<in> set ?L" by simp
    qed
  qed
  moreover from assms(1) have "sorted I" "distinct I"
    by (simp_all add: strict_sorted_iff)
  ultimately have "?L = I" by (intro sorted_distinct_set_unique)
  with eq show ?thesis by simp
qed

lemma Np_getitem: "Np s = Inr n \<longleftrightarrow> (\<exists>a. getitem s ''pore.all'' = Inr a \<and> size_nd a = n)"
  by (auto simp: Np_def getitem_def split: option.splits)

lemma Nt_getitem: "Nt s = Inr n \<longleftrightarrow> (\<exists>a. getitem s ''throat.all'' = Inr a \<and> size_nd a = n)"
  by (auto simp: Nt_def getitem_def split: option.splits)

text \<open>
  Claim C9. Let \<open>I\<close> be a strictly increasing list of indices (hence without
  duplicates). If every index lies in \<open>[0, Np)\<close>, then \<open>tomask(pores=I)\<close> returns the
  mask of length \<open>Np\<close> that is true exactly at the indices of \<open>I\<close>, and \<open>toindices\<close> of
  that mask returns \<open>I\<close>. If every index lies in \<open>[0, Nt)\<close>, the same holds for
  \<open>tomask(throats=I)\<close> with length \<open>Nt\<close>; this covers the case \<open>Np \<noteq> Nt\<close> of the
  claim and the case \<open>Np = Nt\<close> as well. (\<open>toindices\<close> reads the pore count first, so
  \<open>pore.all\<close> has to exist in both cases.)
\<close>

theorem mask_roundtrip:
  assumes "sorted_wrt (<) I" and "Np s = Inr np"
  shows "((\<forall>i \<in> set I. 0 \<le> i \<and> i < int np) \<longrightarrow>
            tomask s (Some (IdxInts I)) None = Inr (map (\<lambda>j. int j \<in> set I) [0 ..< np])
          \<and> toindices s (IdxBools (map (\<lambda>j. int j \<in> set I) [0 ..< np])) = Inr I)
       \<and> (Nt s = Inr nt \<and> (\<forall>i \<in> set I. 0 \<le> i \<and> i < int nt) \<longrightarrow>
            tomask s None (Some (IdxInts I)) = Inr (map (\<lambda>j. int j \<in> set I) [0 ..< nt])
          \<and> toindices s (IdxBools (map (\<lambda>j. int j \<in> set I) [0 ..< nt])) = Inr I)"
proof (intro conjI impI)
  assume r: "\<forall>i \<in> set I. 0 \<le> i \<and> i < int np"
  from assms(2) obtain a where a: "getitem s ''pore.all'' = Inr a" "size_nd a = np"
    by (auto simp: Np_getitem)
  then show "tomask s (Some (IdxInts I)) None = Inr (map (\<lambda>j. int j \<in> set I) [0 ..< np])"
    using r by (simp add: tomask_def tomask_element_def parse_single_pore parse_indices_def
        mask_assign_replicate)
  show "toindices s (IdxBools (map (\<lambda>j. int j \<in> set I) [0 ..< np])) = Inr I"
    using assms r by (simp add: toindices_def parse_indices_def arange_mask_set)
next
  assume "Nt s = Inr nt \<and> (\<forall>i \<in> set I. 0 \<le> i \<and> i < int nt)"
  then have nt: "Nt s = Inr nt" and r: "\<forall>i \<in> set I. 0 \<le> i \<and> i < int nt" by auto
  from nt obtain a where a: "getitem s ''throat.all'' = Inr a" "size_nd a = nt"
    by (auto simp: Nt_getitem)
  then show "tomask s None (Some (IdxInts I)) = Inr (map (\<lambda>j. int j \<in> set I) [0 ..< nt])"
    using r by (simp add: tomask_def tomask_element_def parse_single_throat parse_indices_def
        mask_assign_replicate)
  show "toindices s (IdxBools (map (\<lambda>j. int j \<in> set I) [0 ..< nt])) = Inr I"
    using assms nt arange_mask_set [OF assms(1) r]
    by (auto simp: toindices_def parse_indices_def)
qed

lemma roundtrip_example:
  "Np (init 4 3) = Inr 4" "Nt (init 4 3) = Inr 3"
  "map (\<lambda>j. int j \<in> set [0, 2]) [0 ..< 4] = [True, False, True, False]"
  "map (\<lambda>j. int j \<in> set [0, 2]) [0 ..< 3] = [True, False, True]"
  by code_simp+

theorem mask_roundtrip_witness:
  "sorted_wrt (<) [0, 2 :: int]
   \<and> tomask (init 4 3) (Some (IdxInts [0, 2])) None = Inr [True, False, True, False]
   \<and> toindices (init 4 3) (IdxBools [True, False, True, False]) = Inr [0, 2]
   \<and> tomask (init 4 3) None (Some (IdxInts [0, 2])) = Inr [True, False, True]
   \<and> toindices (init 4 3) (IdxBools [True, False, True]) = Inr [0, 2]"
  using mask_roundtrip [of "[0, 2]" "init 4 3" 4 3, unfolded roundtrip_example(3,4)]
  by (simp add: roundtrip_example(1,2))

section \<open>Label queries\<close>

lemma str_split_append:
  "str_split c (p @ c # x) = str_split c p @ str_split c x"
proof (induction p)
  case Nil
  then show ?case by simp
next
  case (Cons y p)
  then show ?case
    using str_split_nonempty [of c p]
    by (cases "str_split c p") (auto split: list.splits)
qed

lemma str_split_plain: "c \<notin> set x \<Longrightarrow> str_split c x = [x]"
  by (induction x) auto

lemma last_split_qualified:
  "c \<notin> set x \<Longrightarrow> last (str_split c (p @ c # x)) = x"
  by (simp add: str_split_append str_split_plain)

lemma strip_plain_right: "c \<notin> set x \<Longrightarrow> strip c (x @ [c]) = x"
proof -
  assume c: "c \<notin> set x"
  then have "dropWhile (\<lambda>y. y = c) (x @ [c]) = (if x = [] then [] else x @ [c])"
    by (cases x) auto
  moreover from c have "dropWhile (\<lambda>y. y = c) (rev x) = rev x"
    by (cases "rev x") (auto simp: in_set_conv_decomp)
  ultimately show ?thesis
    by (auto simp: strip_def)
qed

lemma strip_plain_left: "c \<notin> set x \<Longrightarrow> strip c (c # x) = x"
proof -
  assume c: "c \<notin> set x"
  then have "dropWhile (\<lambda>y. y = c) x = x"
    by (cases x) auto
  moreover from c have "dropWhile (\<lambda>y. y = c) (rev x) = rev x"
    by (cases "rev x") (auto simp: in_set_conv_decomp)
  ultimately show ?thesis
    by (simp add: strip_def)
qed

lemma remove_dups_loop_nil: "remove_dups_loop i [] = []"
  by (subst remove_dups_loop.simps) simp

lemma remove_dups_loop_subset: "set (remove_dups_loop i xs) \<subseteq> set xs"
proof (induction i xs rule: remove_dups_loop.induct)
  case (1 i xs)
  show ?case
  proof (cases "i < length xs")
    case True
    show ?thesis
    proof (cases "count_list xs (xs ! i) > 1")
      case c: True
      have "set (remove1 (xs ! i) xs) \<subseteq> set xs" by (rule set_remove1_subset)
      with "1.IH"(1) [OF True c] True c show ?thesis
        by (subst remove_dups_loop.simps) auto
    next
      case c: False
      with "1.IH"(2) [OF True c] True show ?thesis
        by (subst remove_dups_loop.simps) auto
    qed
  next
    case False
    then show ?thesis by (subst remove_dups_loop.simps) simp
  qed
qed

lemma parse_mode_single_allowed:
  "mode \<in> set allowed \<Longrightarrow> parse_mode_single (PyStr mode) (Some allowed) = Inr mode"
  by (simp add: parse_mode_single_def parse_mode_def remove_dups_loop_single)

lemma where_nonzero_canonical:
  "sorted_wrt (<) (where_nonzero a) \<and> distinct (where_nonzero a)
   \<and> (\<forall>i \<in> set (where_nonzero a). i < size_nd a)"
proof -
  have "sorted_wrt (<) [0 ..< size_nd a]" by (simp add: strict_sorted_iff)
  then have "sorted_wrt (<) (where_nonzero a)"
    unfolding where_nonzero_def by (rule sorted_wrt_filter)
  then show ?thesis
    by (auto simp: strict_sorted_iff where_nonzero_def)
qed


lemma where_nonzero_zeros: "where_nonzero (BoolArr (replicate N False)) = []"
  by (auto simp: where_nonzero_def filter_empty_conv)

lemma get_indices_no_labels:
  assumes el: "element = ''pore'' \<or> element = ''throat''"
    and a: "element @ ''.all'' \<in> set (keys s)"
    and pl: "parse_labels s labs element = Inr (logged, [])"
  shows "get_indices s element labs (PyStr ''union'') = Inr (logged, [])"
proof -
  from a obtain a0 where a0: "getitem s (element @ ''.all'') = Inr a0"
    by (auto simp: keys_getitem)
  have m: "parse_mode_single (PyStr ''union'')
      (Some [''union'', ''intersection'', ''not_intersection'', ''not'', ''difference''])
      = Inr ''union''"
    by (rule parse_mode_single_allowed) simp
  from el have e: "parse_element_single (PyStr element) = Inr element"
    by (auto simp: parse_single_pore parse_single_throat)
  show ?thesis
    using a a0 pl by (simp add: get_indices_def m e where_nonzero_zeros)
qed

text \<open>
  Claim C1 against the code. The docstrings of \<open>pores\<close> and \<open>throats\<close> give the modes
  \<open>any\<close>, \<open>all\<close>, \<open>one\<close> and \<open>none\<close>, but \<open>_get_indices\<close> allows only \<open>union\<close>,
  \<open>intersection\<close>, \<open>not_intersection\<close>, \<open>not\<close> and \<open>difference\<close>: on a store with
  two pores and one throat each documented mode raises, while \<open>union\<close> returns all
  pores.
\<close>

theorem documented_modes_rejected:
  "pores (init 2 1) (PyStr ''all'') (PyStr ''any'') = Inl InvalidMode
   \<and> pores (init 2 1) (PyStr ''all'') (PyStr ''all'') = Inl InvalidMode
   \<and> pores (init 2 1) (PyStr ''all'') (PyStr ''one'') = Inl InvalidMode
   \<and> pores (init 2 1) (PyStr ''all'') (PyStr ''none'') = Inl InvalidMode
   \<and> throats (init 2 1) (PyStr ''all'') (PyStr ''any'') = Inl InvalidMode
   \<and> pores (init 2 1) (PyStr ''all'') (PyStr ''union'') = Inr ([], [0, 1])"
  by code_simp

text \<open>
  Claim C6, as the code has it. Let \<open>x\<close> be a name without dot or star and let the
  store hold the \<open>all\<close> label of the element. If no label of that element (no key of
  the element with a boolean array) has a name starting with \<open>x\<close>, the union query for
  the pattern \<open>x*\<close> returns the empty index array; if none has a name ending with \<open>x\<close>,
  so does the query for \<open>*x\<close>. Neither raises, and neither logs anything: the first
  component of the result, the warnings, is empty.
\<close>

theorem wildcard_unmatched:
  assumes el: "element = ''pore'' \<or> element = ''throat''"
    and a: "element @ ''.all'' \<in> set (keys s)"
    and x: "CHR ''.'' \<notin> set x" "CHR ''*'' \<notin> set x"
    and ls: "labels s (PyStr element) = Inr ls"
  shows "((\<forall>L \<in> set ls. \<not> prefix x (last (str_split CHR ''.'' L))) \<longrightarrow>
            get_indices s element (PyStr (x @ ''*'')) (PyStr ''union'') = Inr ([], []))
       \<and> ((\<forall>L \<in> set ls. \<not> suffix x (last (str_split CHR ''.'' L))) \<longrightarrow>
            get_indices s element (PyStr (''*'' @ x)) (PyStr ''union'') = Inr ([], []))"
proof (intro conjI impI)
  assume none: "\<forall>L \<in> set ls. \<not> prefix x (last (str_split CHR ''.'' L))"
  let ?p = "x @ ''*''"
  have sp: "str_split CHR ''.'' ?p = [?p]"
    using x(1) by (intro str_split_plain) simp
  have f: "filter (\<lambda>L. prefix x L) (map (\<lambda>L. last (str_split CHR ''.'' L)) ls) = []"
    using none by (auto simp: filter_empty_conv)
  have suf: "suffix ''*'' ?p" by (simp add: suffix_def)
  have st: "strip CHR ''*'' ?p = x" using x(2) by (rule strip_plain_right)
  have "parse_labels s (PyStr ?p) element = Inr ([], [])"
    using ls by (simp add: parse_labels_def sp Let_def suf st f remove_dups_loop_nil)
  with el a show "get_indices s element (PyStr ?p) (PyStr ''union'') = Inr ([], [])"
    by (rule get_indices_no_labels)
next
  assume none: "\<forall>L \<in> set ls. \<not> suffix x (last (str_split CHR ''.'' L))"
  let ?p = "CHR ''*'' # x"
  have sp: "str_split CHR ''.'' ?p = [?p]"
    using x(1) by (intro str_split_plain) simp
  have f: "filter (\<lambda>L. suffix x L) (map (\<lambda>L. last (str_split CHR ''.'' L)) ls) = []"
    using none by (auto simp: filter_empty_conv)
  have st: "strip CHR ''*'' ?p = x" using x(2) by (rule strip_plain_left)
  have suf: "suffix ''*'' ?p \<longleftrightarrow> x = []"
    using x(2) by (cases x rule: rev_cases) (auto simp: suffix_def)
  have nil: "x = [] \<Longrightarrow> ls = []"
    using none by auto
  have "parse_labels s (PyStr ?p) element = Inr ([], [])"
    using ls nil
    by (auto simp: parse_labels_def sp Let_def suf st f remove_dups_loop_nil
        simp del: str_split.simps)
  with el a show "get_indices s element (PyStr (''*'' @ x)) (PyStr ''union'') = Inr ([], [])"
    by (simp add: get_indices_no_labels)
qed


lemma wildcard_example:
  "labels (init 2 3) (PyStr ''pore'') = Inr [''pore.all'']"
  "''pore'' @ ''.all'' \<in> set (keys (init 2 3))"
  "\<not> prefix ''x'' (last (str_split CHR ''.'' ''pore.all''))"
  "\<not> suffix ''x'' (last (str_split CHR ''.'' ''pore.all''))"
  by code_simp+

theorem wildcard_unmatched_witness:
  "get_indices (init 2 3) ''pore'' (PyStr (''x'' @ ''*'')) (PyStr ''union'') = Inr ([], [])
   \<and> get_indices (init 2 3) ''pore'' (PyStr (''*'' @ ''x'')) (PyStr ''union'') = Inr ([], [])"
  using wildcard_unmatched [OF _ wildcard_example(2) _ _ wildcard_example(1), of "''x''"]
    wildcard_example(3,4)
  by simp

text \<open>
  The claim as stated says that the unmatched pattern is logged. The wildcard branch of
  \<open>_parse_labels\<close> has no logger call: the query below returns no warning. A warning is
  logged only for a plain name that is not a key, and that query then raises.
\<close>

theorem wildcard_unmatched_counterexample:
  "parse_labels (init 2 3) (PyStr ''left*'') ''pore'' = Inr ([], [])
   \<and> pores (init 2 3) (PyStr ''left*'') (PyStr ''union'') = Inr ([], [])
   \<and> parse_labels (init 2 3) (PyStr ''left'') ''pore''
       = Inr ([[CHR 0x27] @ ''pore.left'' @ [CHR 0x27] @ '' not found''], [''pore.left''])
   \<and> pores (init 2 3) (PyStr ''left'') (PyStr ''union'') = Inl (KeyError ''pore.left'')"
  by code_simp

lemma broadcast2_same:
  "length xs = length ys \<Longrightarrow> broadcast2 f xs ys = Inr (map2 f xs ys)"
  by (simp add: broadcast2_def)

lemma length_as_ints: "length (as_ints a) = size_nd a"
  by (cases a) simp_all

lemma length_as_floats: "length (as_floats a) = size_nd a"
  by (cases a) simp_all

lemma np_add_size:
  "size_nd a = N \<Longrightarrow> size_nd b = N \<Longrightarrow> \<exists>r. np_add a b = Inr r \<and> size_nd r = N"
  by (cases a; cases b) (simp_all add: broadcast2_same)

lemma np_mul_size:
  "size_nd a = N \<Longrightarrow> size_nd b = N \<Longrightarrow> \<exists>r. np_mul a b = Inr r \<and> size_nd r = N"
  by (cases a; cases b) (simp_all add: broadcast2_same)

lemma size_int8: "size_nd (int8 a) = size_nd a"
  by (simp add: int8_def length_as_ints)

lemma np_sub_int_size:
  "size_nd a = N \<Longrightarrow> size_nd b = N \<Longrightarrow> \<exists>r. np_sub_int a b = Inr r \<and> size_nd r = N"
  by (simp add: np_sub_int_def broadcast2_same length_as_ints)

lemma size_eq_scalar: "size_nd (eq_scalar a c) = size_nd a"
  by (cases a) simp_all

lemma collect_size:
  assumes f: "\<And>acc info. size_nd acc = N \<Longrightarrow> size_nd info = N
               \<Longrightarrow> \<exists>r. f acc info = Inr r \<and> size_nd r = N"
    and items: "\<forall>item \<in> set items. \<exists>a. getitem s (element @ ''.'' @ last (str_split CHR ''.'' item)) = Inr a
                  \<and> size_nd a = N"
    and acc: "size_nd acc = N"
  shows "\<exists>r. collect s element f items acc = Inr r \<and> size_nd r = N"
  using items acc
proof (induction items arbitrary: acc)
  case Nil
  then show ?case by simp
next
  case (Cons item items)
  then obtain a where a: "getitem s (element @ ''.'' @ last (str_split CHR ''.'' item)) = Inr a"
      "size_nd a = N"
    by auto
  from f [OF Cons.prems(2) a(2)] obtain r where r: "f acc a = Inr r" "size_nd r = N"
    by auto
  from Cons.IH [of r] Cons.prems(1) r(2)
  obtain r' where "collect s element f items r = Inr r'" "size_nd r' = N"
    by auto
  with a r show ?case by simp
qed

lemma parse_labels_loop_plain:
  assumes labs: "\<forall>l \<in> set labs. \<exists>x. (l = x \<or> l = element @ ''.'' @ x)
                   \<and> CHR ''.'' \<notin> set x \<and> CHR ''*'' \<notin> set x \<and> element @ ''.'' @ x \<in> G
                   \<and> element @ ''.'' @ x \<in> set (keys s)"
    and parsed: "set parsed \<subseteq> G"
  shows "\<exists>ps. parse_labels_loop s element labs temp parsed logged = Inr (logged, ps)
            \<and> set ps \<subseteq> G"
  using labs parsed
proof (induction labs arbitrary: temp parsed)
  case Nil
  then show ?case by simp
next
  case (Cons l labs)
  then obtain x where x: "l = x \<or> l = element @ ''.'' @ x" "CHR ''.'' \<notin> set x"
      "CHR ''*'' \<notin> set x" "element @ ''.'' @ x \<in> G" "element @ ''.'' @ x \<in> set (keys s)"
    by auto
  have norm: "(if sublist element l then last (str_split CHR ''.'' l) else l) = x
            \<or> (l = element @ ''.'' @ x \<and> \<not> sublist element l)"
    using x(1,2) by (auto simp: str_split_plain last_split_qualified)
  have "sublist element (element @ ''.'' @ x)"
    unfolding sublist_def by (rule exI [of _ "[]"], rule exI [of _ "''.'' @ x"]) simp
  with norm have norm: "(if sublist element l then last (str_split CHR ''.'' l) else l) = x"
    by auto
  let ?parsed = "remove_dups_loop 0 (parsed @ [element @ ''.'' @ x])"
  have "set ?parsed \<subseteq> G"
    using remove_dups_loop_subset [of 0 "parsed @ [element @ ''.'' @ x]"] Cons.prems(2) x(4)
    by auto
  with Cons.IH [of ?parsed "Some [element @ ''.'' @ x]"] Cons.prems(1)
  obtain ps where "parse_labels_loop s element labs (Some [element @ ''.'' @ x]) ?parsed logged
      = Inr (logged, ps)" "set ps \<subseteq> G"
    by auto
  then show ?case
    using x(3,5) by (simp add: norm Let_def del: str_split.simps)
qed


text \<open>
  Claim C10, as the code has it. Let the element (pore or throat) have count \<open>N\<close>, let
  the mode be one that \<open>_get_indices\<close> accepts, and let every given label, written as a
  name or as element.name with a name free of dots and stars, be an existing key whose
  array has length \<open>N\<close>. Then the query returns, without a warning, an index array that
  is strictly increasing, free of duplicates, and has every entry below \<open>N\<close>.
\<close>

theorem get_indices_canonical:
  assumes el: "element = ''pore'' \<or> element = ''throat''"
    and a0: "getitem s (element @ ''.all'') = Inr a0" "size_nd a0 = N"
    and mode: "mode \<in> set [''union'', ''intersection'', ''not_intersection'', ''not'', ''difference'']"
    and labs: "\<forall>l \<in> set labs. \<exists>x a. (l = x \<or> l = element @ ''.'' @ x)
                 \<and> CHR ''.'' \<notin> set x \<and> CHR ''*'' \<notin> set x
                 \<and> getitem s (element @ ''.'' @ x) = Inr a \<and> size_nd a = N"
  shows "\<exists>ind. get_indices s element (PyList labs) (PyStr mode) = Inr ([], ind)
           \<and> sorted_wrt (<) ind \<and> distinct ind \<and> (\<forall>i \<in> set ind. i < N)"
proof -
  define G where "G = {k. \<exists>x a. k = element @ ''.'' @ x \<and> CHR ''.'' \<notin> set x
                        \<and> getitem s k = Inr a \<and> size_nd a = N}"
  have m: "parse_mode_single (PyStr mode)
      (Some [''union'', ''intersection'', ''not_intersection'', ''not'', ''difference''])
      = Inr mode"
    using mode by (rule parse_mode_single_allowed)
  from el have e: "parse_element_single (PyStr element) = Inr element"
    by (auto simp: parse_single_pore parse_single_throat)
  have "\<forall>l \<in> set labs. \<exists>x. (l = x \<or> l = element @ ''.'' @ x)
          \<and> CHR ''.'' \<notin> set x \<and> CHR ''*'' \<notin> set x \<and> element @ ''.'' @ x \<in> G
          \<and> element @ ''.'' @ x \<in> set (keys s)"
  proof
    fix l assume "l \<in> set labs"
    with labs obtain x a where "l = x \<or> l = element @ ''.'' @ x" "CHR ''.'' \<notin> set x"
        "CHR ''*'' \<notin> set x" "getitem s (element @ ''.'' @ x) = Inr a" "size_nd a = N"
      by blast
    then show "\<exists>x. (l = x \<or> l = element @ ''.'' @ x)
          \<and> CHR ''.'' \<notin> set x \<and> CHR ''*'' \<notin> set x \<and> element @ ''.'' @ x \<in> G
          \<and> element @ ''.'' @ x \<in> set (keys s)"
      unfolding G_def keys_getitem by blast
  qed
  from parse_labels_loop_plain [OF this, of "[]" None "[]"]
  obtain ps where ps: "parse_labels s (PyList labs) element = Inr ([], ps)" "set ps \<subseteq> G"
    by (auto simp: parse_labels_def)
  have items: "\<forall>item \<in> set ps. \<exists>a. getitem s (element @ ''.'' @ last (str_split CHR ''.'' item)) = Inr a
                  \<and> size_nd a = N"
  proof
    fix item assume "item \<in> set ps"
    with ps(2) obtain x a where x: "item = element @ ''.'' @ x" "CHR ''.'' \<notin> set x"
        "getitem s item = Inr a" "size_nd a = N"
      unfolding G_def by blast
    from x(2) have "last (str_split CHR ''.'' (element @ CHR ''.'' # x)) = x"
      by (rule last_split_qualified)
    with x show "\<exists>a. getitem s (element @ ''.'' @ last (str_split CHR ''.'' item)) = Inr a
                  \<and> size_nd a = N"
      by simp
  qed
  have k: "element @ ''.all'' \<in> set (keys s)"
    using a0(1) by (simp add: keys_getitem)
  have u: "\<exists>r. collect s element np_add ps (BoolArr (replicate N False)) = Inr r \<and> size_nd r = N"
    by (rule collect_size [OF np_add_size items]) simp_all
  have i: "\<exists>r. collect s element np_mul ps (BoolArr (replicate N True)) = Inr r \<and> size_nd r = N"
    by (rule collect_size [OF np_mul_size items]) simp_all
  have n: "\<exists>r. collect s element (\<lambda>acc info. np_add acc (int8 info)) ps (IntArr (replicate N 0))
      = Inr r \<and> size_nd r = N"
    by (rule collect_size [OF _ items]) (simp_all add: np_add_size size_int8)
  have d: "\<exists>r. collect s element (\<lambda>acc info. np_sub_int acc (int8 info)) ps (IntArr (replicate N 0))
      = Inr r \<and> size_nd r = N"
    by (rule collect_size [OF _ items]) (simp_all add: np_sub_int_size size_int8)
  have "\<exists>b. get_indices s element (PyList labs) (PyStr mode) = Inr ([], where_nonzero b)
      \<and> size_nd b = N"
    using u i n d a0 k ps(1)
    by (auto simp: get_indices_def m e Let_def size_eq_scalar)
  then obtain b where b: "get_indices s element (PyList labs) (PyStr mode) = Inr ([], where_nonzero b)"
      "size_nd b = N"
    by blast
  with where_nonzero_canonical [of b] show ?thesis by auto
qed

lemma canonical_example:
  "get_indices
     \<lparr>data = [(''pore.all'', BoolArr [True, True, True]), (''throat.all'', BoolArr [True]),
              (''pore.top'', BoolArr [True, False, True])], models = None\<rparr>
     ''pore'' (PyList [''top'', ''pore.all'']) (PyStr ''not_intersection'') = Inr ([], [1])"
  by code_simp

theorem get_indices_canonical_witness:
  "get_indices
     \<lparr>data = [(''pore.all'', BoolArr [True, True, True]), (''throat.all'', BoolArr [True]),
              (''pore.top'', BoolArr [True, False, True])], models = None\<rparr>
     ''pore'' (PyList [''top'', ''pore.all'']) (PyStr ''not_intersection'') = Inr ([], [1])
   \<and> sorted_wrt (<) [1 :: nat] \<and> distinct [1 :: nat] \<and> (1 :: nat) < 3"
proof -
  let ?s = "\<lparr>data = [(''pore.all'', BoolArr [True, True, True]), (''throat.all'', BoolArr [True]),
              (''pore.top'', BoolArr [True, False, True])], models = None\<rparr>"
  have a0: "getitem ?s (''pore'' @ ''.all'') = Inr (BoolArr [True, True, True])"
    by (simp add: getitem_def)
  have top: "getitem ?s (''pore'' @ ''.'' @ ''top'') = Inr (BoolArr [True, False, True])"
    by (simp add: getitem_def)
  have a1: "getitem ?s (''pore'' @ ''.'' @ ''all'') = Inr (BoolArr [True, True, True])"
    by (simp add: getitem_def)
  have labs: "\<forall>l \<in> set [''top'', ''pore.all'']. \<exists>x a. (l = x \<or> l = ''pore'' @ ''.'' @ x)
      \<and> CHR ''.'' \<notin> set x \<and> CHR ''*'' \<notin> set x
      \<and> getitem ?s (''pore'' @ ''.'' @ x) = Inr a \<and> size_nd a = 3"
  proof
    fix l assume "l \<in> set [''top'', ''pore.all'']"
    then consider "l = ''top''" | "l = ''pore.all''" by auto
    then show "\<exists>x a. (l = x \<or> l = ''pore'' @ ''.'' @ x)
      \<and> CHR ''.'' \<notin> set x \<and> CHR ''*'' \<notin> set x
      \<and> getitem ?s (''pore'' @ ''.'' @ x) = Inr a \<and> size_nd a = 3"
    proof cases
      case 1
      with top show ?thesis
        by (intro exI [of _ "''top''"] exI [of _ "BoolArr [True, False, True]"]) simp
    next
      case 2
      with a1 show ?thesis
        by (intro exI [of _ "''all''"] exI [of _ "BoolArr [True, True, True]"]) simp
    qed
  qed
  from get_indices_canonical [of "''pore''" ?s "BoolArr [True, True, True]" 3
      "''not_intersection''" "[''top'', ''pore.all'']", OF _ a0 _ _ labs]
  show ?thesis
    by (simp add: canonical_example)
qed

text \<open>
  The claim as stated fails on a store that grew from empty: created with no pores, it
  takes a three-entry label (the count is zero, so any length is stored) and then a
  one-entry \<open>pore.all\<close>. The pore count is now one, and the union query for the label
  returns the indices 0, 1 and 2.
\<close>

theorem get_indices_canonical_counterexample:
  "set_all (init 0 0)
     [(''pore.foo'', PyBools [True, True, True]), (''pore.all'', PyBools [True])]
     = Inr \<lparr>data = [(''pore.all'', BoolArr [True]), (''throat.all'', BoolArr []),
                    (''pore.foo'', BoolArr [True, True, True])], models = None\<rparr>
   \<and> count \<lparr>data = [(''pore.all'', BoolArr [True]), (''throat.all'', BoolArr []),
                    (''pore.foo'', BoolArr [True, True, True])], models = None\<rparr> ''pore''
       = Inr 1
   \<and> pores \<lparr>data = [(''pore.all'', BoolArr [True]), (''throat.all'', BoolArr []),
                    (''pore.foo'', BoolArr [True, True, True])], models = None\<rparr>
        (PyList [''foo'']) (PyStr ''union'') = Inr ([], [0, 1, 2])"
  by code_simp

section \<open>The conductance matrix\<close>

lemma add_at_dims:
  "length (add_at A i j g) = length A"
  "k < length A \<Longrightarrow> length (add_at A i j g ! k) = length (A ! k)"
  by (cases "k = i"; simp add: add_at_def)+

lemma add_at_nth:
  assumes "i < length A" and "j < length (A ! i)" and "a < length A" and "b < length (A ! a)"
  shows "add_at A i j g ! a ! b = A ! a ! b + (if a = i \<and> b = j then g else 0)"
  using assms by (auto simp: add_at_def nth_list_update)

lemma sum_list_update_real:
  fixes xs :: "real list"
  shows "k < length xs \<Longrightarrow> sum_list (xs[k := x]) = sum_list xs + x - xs ! k"
  by (induction xs arbitrary: k) (auto split: nat.splits)

lemma add_at_sum:
  assumes "i < length A" and "j < length (A ! i)" and "a < length A"
  shows "sum_list (add_at A i j g ! a) = sum_list (A ! a) + (if a = i then g else 0)"
  using assms by (auto simp: add_at_def nth_list_update sum_list_update_real)

lemma laplacianD:
  assumes "laplacian N A"
  shows "length A = N" and "\<And>k. k < N \<Longrightarrow> length (A ! k) = N"
    and "\<And>a b. a < N \<Longrightarrow> b < N \<Longrightarrow> A ! a ! b = A ! b ! a"
    and "\<And>a. a < N \<Longrightarrow> sum_list (A ! a) = 0"
proof -
  from assms have c: "length A = N \<and> (\<forall>i < N. length (A ! i) = N)
     \<and> (\<forall>i < N. \<forall>j < N. A ! i ! j = A ! j ! i) \<and> (\<forall>i < N. sum_list (A ! i) = 0)"
    unfolding laplacian_def .
  show "length A = N" by (rule conjunct1 [OF c])
  show "length (A ! k) = N" if "k < N" for k
    by (rule conjunct1 [OF conjunct2 [OF c], rule_format, OF that])
  show "A ! a ! b = A ! b ! a" if "a < N" "b < N" for a b
    by (rule conjunct1 [OF conjunct2 [OF conjunct2 [OF c]], rule_format, OF that])
  show "sum_list (A ! a) = 0" if "a < N" for a
    by (rule conjunct2 [OF conjunct2 [OF conjunct2 [OF c]], rule_format, OF that])
qed

lemma laplacianI:
  assumes "length A = N" and "\<And>k. k < N \<Longrightarrow> length (A ! k) = N"
    and "\<And>a b. a < N \<Longrightarrow> b < N \<Longrightarrow> A ! a ! b = A ! b ! a"
    and "\<And>a. a < N \<Longrightarrow> sum_list (A ! a) = 0"
  shows "laplacian N A"
  unfolding laplacian_def
  by (intro conjI allI impI assms; assumption)

lemma add_edge_laplacian:
  assumes L: "laplacian N A" and e: "i < N" "j < N"
  shows "laplacian N (add_edge A (i, j, g))"
proof -
  let ?A1 = "add_at A i i g"
  let ?A2 = "add_at ?A1 j j g"
  let ?A3 = "add_at ?A2 i j (- g)"
  let ?A4 = "add_at ?A3 j i (- g)"
  note d0 = laplacianD(1,2) [OF L]
  have d1: "length ?A1 = N" "\<And>k. k < N \<Longrightarrow> length (?A1 ! k) = N"
    using d0 by (simp_all add: add_at_dims)
  have d2: "length ?A2 = N" "\<And>k. k < N \<Longrightarrow> length (?A2 ! k) = N"
    using d1 by (simp_all add: add_at_dims)
  have d3: "length ?A3 = N" "\<And>k. k < N \<Longrightarrow> length (?A3 ! k) = N"
    using d2 by (simp_all add: add_at_dims)
  have d4: "length ?A4 = N" "\<And>k. k < N \<Longrightarrow> length (?A4 ! k) = N"
    using d3 by (simp_all add: add_at_dims)
  have nth: "?A4 ! a ! b = A ! a ! b + (if a = i \<and> b = i then g else 0)
        + (if a = j \<and> b = j then g else 0) + (if a = i \<and> b = j then - g else 0)
        + (if a = j \<and> b = i then - g else 0)" if "a < N" "b < N" for a b
    using that e d0 d1 d2 d3 by (simp add: add_at_nth)
  have sum: "sum_list (?A4 ! a) = sum_list (A ! a)" if "a < N" for a
    using that e d0 d1 d2 d3 by (simp add: add_at_sum)
  have s4: "?A4 ! a ! b = ?A4 ! b ! a" if "a < N" "b < N" for a b
  proof -
    have ab: "A ! b ! a = A ! a ! b" by (rule laplacianD(3) [OF L that(2,1)])
    have "?A4 ! a ! b = A ! b ! a + (if a = i \<and> b = i then g else 0)
        + (if a = j \<and> b = j then g else 0) + (if a = i \<and> b = j then - g else 0)
        + (if a = j \<and> b = i then - g else 0)"
      unfolding ab by (rule nth [OF that])
    moreover have "?A4 ! b ! a = A ! b ! a + (if b = i \<and> a = i then g else 0)
        + (if b = j \<and> a = j then g else 0) + (if b = i \<and> a = j then - g else 0)
        + (if b = j \<and> a = i then - g else 0)"
      by (rule nth [OF that(2,1)])
    ultimately show ?thesis
      by (simp add: conj_commute ac_simps)
  qed
  have z4: "sum_list (?A4 ! a) = 0" if "a < N" for a
    unfolding sum [OF that] by (rule laplacianD(4) [OF L that])
  have "laplacian N ?A4"
    by (rule laplacianI [OF d4 s4 z4])
  then show ?thesis
    unfolding add_edge_def by simp
qed

lemma zeros_laplacian: "laplacian N (replicate N (replicate N 0))"
  by (rule laplacianI) (simp_all add: sum_list_replicate)

lemma foldl_add_edge_laplacian:
  "laplacian N A \<Longrightarrow> \<forall>(i, j, g) \<in> set edges. i < N \<and> j < N
   \<Longrightarrow> laplacian N (foldl add_edge A edges)"
proof (induction edges arbitrary: A)
  case Nil
  then show ?case by simp
next
  case (Cons e edges)
  obtain i j g where e: "e = (i, j, g)" by (cases e)
  from Cons.prems(2) e have ij: "i < N" "j < N" by auto
  have "laplacian N (add_edge A e)"
    unfolding e by (rule add_edge_laplacian [OF Cons.prems(1) ij])
  moreover from Cons.prems(2) have "\<forall>(i, j, g) \<in> set edges. i < N \<and> j < N" by simp
  ultimately have "laplacian N (foldl add_edge (add_edge A e) edges)"
    by (rule Cons.IH)
  then show ?case by simp
qed

text \<open>
  Claim C8, on the assembler as the spec describes it. For every table of edges over
  \<open>N\<close> nodes in which each edge joins two distinct nodes below \<open>N\<close>, and every
  assignment of conductances (non-negative or not), assembly succeeds and the \<open>N\<close> by
  \<open>N\<close> matrix it returns is symmetric with every row summing to zero.
\<close>

theorem assemble_laplacian:
  assumes "\<forall>(i, j, g) \<in> set edges. i \<noteq> j \<and> i < N \<and> j < N"
  shows "\<exists>A. assemble N edges = Inr A \<and> length A = N \<and> (\<forall>i < N. length (A ! i) = N)
           \<and> (\<forall>i < N. \<forall>j < N. A ! i ! j = A ! j ! i) \<and> (\<forall>i < N. sum_list (A ! i) = 0)"
proof -
  let ?M = "foldl add_edge (replicate N (replicate N 0)) edges"
  from assms have "\<not> list_ex (\<lambda>(i, j, g). i = j \<or> N \<le> i \<or> N \<le> j) edges"
    by (auto simp: list_ex_iff)
  then have eq: "assemble N edges = Inr ?M"
    by (simp add: assemble_def)
  from assms have "\<forall>(i, j, g) \<in> set edges. i < N \<and> j < N" by auto
  with zeros_laplacian have "laplacian N ?M"
    by (rule foldl_add_edge_laplacian)
  then have c: "length ?M = N \<and> (\<forall>i < N. length (?M ! i) = N)
     \<and> (\<forall>i < N. \<forall>j < N. ?M ! i ! j = ?M ! j ! i) \<and> (\<forall>i < N. sum_list (?M ! i) = 0)"
    unfolding laplacian_def .
  show ?thesis
    by (rule exI [of _ ?M], rule conjI [OF eq c])
qed

lemma assemble_example:
  "assemble 4 [(0, 2, 2), (2, 3, 5)]
     = Inr [[2, 0, -2, 0], [0, 0, 0, 0], [-2, 0, 7, -5], [0, 0, -5, 5]]"
  by (simp add: assemble_def add_edge_def add_at_def eval_nat_numeral)

theorem assemble_laplacian_witness:
  "assemble 4 [(0, 2, 2), (2, 3, 5)]
     = Inr [[2, 0, -2, 0], [0, 0, 0, 0], [-2, 0, 7, -5], [0, 0, -5, 5]]
   \<and> sum_list [2, 0, -2, 0 :: real] = 0 \<and> sum_list [-2, 0, 7, -5 :: real] = 0"
proof -
  have h: "\<forall>(i, j, g) \<in> set [(0, 2, 2 :: real), (2, 3, 5)]. i \<noteq> j \<and> i < (4 :: nat) \<and> j < 4"
    by simp
  from assemble_laplacian [OF h] obtain A
    where A: "assemble 4 [(0, 2, 2), (2, 3, 5)] = Inr A"
      and z: "\<forall>i < 4. sum_list (A ! i) = 0"
    by blast
  from A have eq: "A = [[2, 0, -2, 0], [0, 0, 0, 0], [-2, 0, 7, -5], [0, 0, -5, 5]]"
    unfolding assemble_example by simp
  from z have "sum_list (A ! 0) = 0" "sum_list (A ! 2) = 0" by simp_all
  then have "sum_list [2, 0, -2, 0 :: real] = 0" "sum_list [-2, 0, 7, -5 :: real] = 0"
    unfolding eq by simp_all
  with assemble_example show ?thesis by blast
qed

section \<open>Zero-length segments of a conduit\<close>






















end
